theory Spec2Isabelle
  imports Complex_Main "HOL-Library.Multiset"
begin

section \<open>The emotion-sampling and logging pipeline of the EmotionDetection page\<close>

text \<open>
  The component keeps three pieces of data that the properties below are about:
  the ref \<^verbatim>\<open>emotionBuffer\<close> (an array of \<^verbatim>\<open>{ emotion, confidence }\<close>), the React state
  \<^verbatim>\<open>emotionsLog\<close> (an array of \<^verbatim>\<open>{ time, emotion, speech }\<close>) and the React state
  \<^verbatim>\<open>currentEmotion\<close>. Three callbacks touch them: the interval callback installed by
  \<^verbatim>\<open>handleVideoPlay\<close>, the \<^verbatim>\<open>onresult\<close> handler installed by
  \<^verbatim>\<open>initializeSpeechRecognition\<close>, and \<^verbatim>\<open>downloadLogs\<close>.

  Confidences are JavaScript numbers. The code only compares them (\<^verbatim>\<open>>\<close>) and takes the
  sign of a difference (\<^verbatim>\<open>b[1] - a[1]\<close>); on finite numbers both agree with the order of
  the reals, which is the type used here. Strings are character lists. The wall clock, the
  face detector and the speech recogniser are inputs of the model.
\<close>

subsection \<open>Data\<close>

datatype error = TypeError

record ExpressionSample =
  emotion :: string
  confidence :: real

record LogEntry =
  time :: string
  emotion :: string
  speech :: string

text \<open>
  \<^verbatim>\<open>Object.entries(detections[0].expressions)\<close>: the (label, confidence) pairs of one face,
  in the object's property order.
\<close>

type_synonym expressions = "(string \<times> real) list"

record state =
  emotionBuffer :: "ExpressionSample list"
  emotionsLog :: "LogEntry list"
  currentEmotion :: string

definition initial :: state where
  "initial = \<lparr>emotionBuffer = [], emotionsLog = [], currentEmotion = ''''\<rparr>"

text \<open>
  A callback either runs to its end or throws; the refs and states keep what was written
  before the throw.
\<close>

datatype outcome = Completed state | Threw error state

fun state_of :: "outcome \<Rightarrow> state" where
  "state_of (Completed s) = s"
| "state_of (Threw e s) = s"

subsection \<open>The interval callback of \<^verbatim>\<open>handleVideoPlay\<close>\<close>

text \<open>
  \<^verbatim>\<open>.sort((a, b) => b[1] - a[1])\<close>. \<^verbatim>\<open>Array.prototype.sort\<close> is stable: \<^verbatim>\<open>a\<close> stays in front
  of \<^verbatim>\<open>b\<close> unless the comparator is positive. The model is the stable insertion sort
  under that comparator.
\<close>

definition compareFn :: "string \<times> real \<Rightarrow> string \<times> real \<Rightarrow> real" where
  "compareFn a b = snd b - snd a"

fun insort_entry :: "string \<times> real \<Rightarrow> expressions \<Rightarrow> expressions" where
  "insort_entry a [] = [a]"
| "insort_entry a (b # bs) =
     (if compareFn a b > 0 then b # insort_entry a bs else a # b # bs)"

fun sort_entries :: "expressions \<Rightarrow> expressions" where
  "sort_entries [] = []"
| "sort_entries (a # as) = insort_entry a (sort_entries as)"

text \<open>
  \<^verbatim>\<open>const strongestEmotion = sortedEmotions[0]\<close>, then \<^verbatim>\<open>strongestEmotion[0]\<close> and
  \<^verbatim>\<open>strongestEmotion[1]\<close>: indexing \<^verbatim>\<open>undefined\<close> throws when there is no entry.
\<close>

definition strongestEmotion :: "expressions \<Rightarrow> error + ExpressionSample" where
  "strongestEmotion emotions =
     (case sort_entries emotions of
        [] \<Rightarrow> Inl TypeError
      | entry # rest \<Rightarrow>
          Inr \<lparr>ExpressionSample.emotion = fst entry, confidence = snd entry\<rparr>)"

text \<open>
  \<^verbatim>\<open>reduce((prev, current) => (prev.confidence > current.confidence ? prev : current))\<close>
  without an initial value: the first element starts the fold, an empty array throws.
\<close>

definition pick :: "ExpressionSample \<Rightarrow> ExpressionSample \<Rightarrow> ExpressionSample" where
  "pick prev current = (if confidence prev > confidence current then prev else current)"

definition reduce ::
  "('a \<Rightarrow> 'a \<Rightarrow> 'a) \<Rightarrow> 'a list \<Rightarrow> error + 'a" where
  "reduce f xs = (case xs of [] \<Rightarrow> Inl TypeError | x # rest \<Rightarrow> Inr (foldl f x rest))"

text \<open>
  Lines 139 to 155: what happens once the sample has been pushed. \<^verbatim>\<open>now\<close> is the string
  that \<^verbatim>\<open>new Date().toLocaleTimeString(...)\<close> gives at that moment.
\<close>

definition afterPush :: "string \<Rightarrow> state \<Rightarrow> outcome" where
  "afterPush now s =
     (if length (emotionBuffer s) \<ge> 5 then
        (case reduce pick (emotionBuffer s) of
           Inl e \<Rightarrow> Threw e s
         | Inr bestEmotion \<Rightarrow>
             Completed (s\<lparr>currentEmotion := ExpressionSample.emotion bestEmotion,
                          emotionsLog := emotionsLog s @
                            [\<lparr>time = now,
                              emotion = ExpressionSample.emotion bestEmotion,
                              speech = ''''\<rparr>],
                          emotionBuffer := []\<rparr>))
      else Completed s)"

text \<open>
  One run of the interval callback. The first argument is \<^verbatim>\<open>None\<close> when \<^verbatim>\<open>videoRef.current\<close>
  or \<^verbatim>\<open>canvasRef.current\<close> is missing (the early return), and otherwise the list of faces
  the detector found, each with the entries of its expressions. Drawing on the canvas does
  not touch the state.
\<close>

definition tick :: "expressions list option \<Rightarrow> string \<Rightarrow> state \<Rightarrow> outcome" where
  "tick frame now s =
     (case frame of
        None \<Rightarrow> Completed s
      | Some detections \<Rightarrow>
          (if length detections > 0 then
             (case strongestEmotion (hd detections) of
                Inl e \<Rightarrow> Threw e s
              | Inr sample \<Rightarrow>
                  afterPush now (s\<lparr>emotionBuffer := emotionBuffer s @ [sample]\<rparr>))
           else Completed s))"

subsection \<open>The \<^verbatim>\<open>onresult\<close> handler of the speech recogniser\<close>

text \<open>
  The updater passed to \<^verbatim>\<open>setEmotionsLog\<close>. \<^verbatim>\<open>prevLogs[prevLogs.length - 1]\<close> is
  \<^verbatim>\<open>undefined\<close> exactly when the array is empty; an entry object is always truthy.
  \<^verbatim>\<open>map\<close> passes each element with its index.
\<close>

definition amendLast :: "string \<Rightarrow> LogEntry list \<Rightarrow> LogEntry list" where
  "amendLast transcript prevLogs =
     (if prevLogs \<noteq> [] then
        map (\<lambda>(index, log).
               if int index = int (length prevLogs) - 1
               then log\<lparr>speech := transcript\<rparr> else log)
            (zip [0..<length prevLogs] prevLogs)
      else prevLogs)"

definition onresult :: "string \<Rightarrow> state \<Rightarrow> state" where
  "onresult transcript s = s\<lparr>emotionsLog := amendLast transcript (emotionsLog s)\<rparr>"

subsection \<open>\<^verbatim>\<open>downloadLogs\<close>\<close>

text \<open>\<^verbatim>\<open>Array.prototype.join\<close> on strings.\<close>

fun join :: "string \<Rightarrow> string list \<Rightarrow> string" where
  "join sep [] = []"
| "join sep [x] = x"
| "join sep (x # y # ys) = x @ sep @ join sep (y # ys)"

text \<open>The template literal \<^verbatim>\<open>`${log.time},${log.emotion},${log.speech}`\<close>.\<close>

definition row :: "LogEntry \<Rightarrow> string" where
  "row entry = time entry @ '','' @ emotion entry @ '','' @ speech entry"

definition csvContent :: "LogEntry list \<Rightarrow> string" where
  "csvContent logs =
     ''data:text/csv;charset=utf-8,Time,Emotion,Speech'' @ [CHR 0x0A] @
     join [CHR 0x0A] (map row logs)"

text \<open>
  \<^verbatim>\<open>csvContent\<close> is a data URI: the media type, a comma, and then the CSV text the code
  has built. \<open>dataPortion\<close> is that text, the part of the string after the first comma,
  before anything is encoded.
\<close>

definition dataPortion :: "string \<Rightarrow> string" where
  "dataPortion uri = tl (dropWhile (\<lambda>c. c \<noteq> CHR '','') uri)"

text \<open>
  \<^verbatim>\<open>const encodedUri = encodeURI(csvContent)\<close>. \<^verbatim>\<open>encodeURI\<close> leaves the letters, the digits
  and the characters \<^verbatim>\<open>; / ? : @ & = + $ , # - _ . ! ~ * ' ( )\<close> as they are and replaces every
  other character by the octets of its UTF-8 encoding, each written \<^verbatim>\<open>%XX\<close> with upper-case
  hexadecimal digits. A character of the model is a code point below 256, so its UTF-8
  encoding has one octet (below 128) or two.
\<close>

definition inRange :: "char \<Rightarrow> char \<Rightarrow> char \<Rightarrow> bool" where
  "inRange lo hi c = ((of_char lo :: nat) \<le> of_char c \<and> (of_char c :: nat) \<le> of_char hi)"

definition unescaped :: "char \<Rightarrow> bool" where
  "unescaped c =
     (inRange CHR ''a'' CHR ''z'' c \<or> inRange CHR ''A'' CHR ''Z'' c \<or>
      inRange CHR ''0'' CHR ''9'' c \<or>
      c \<in> set '';/?:@&=+$,#-_.!~*()'' \<or> c = CHR 0x27)"

definition utf8 :: "char \<Rightarrow> nat list" where
  "utf8 c =
     (if (of_char c :: nat) < 128 then [of_char c]
      else [192 + of_char c div 64, 128 + of_char c mod 64])"

definition hexDigit :: "nat \<Rightarrow> char" where
  "hexDigit n = ''0123456789ABCDEF'' ! n"

definition percentEscape :: "nat \<Rightarrow> string" where
  "percentEscape octet = [CHR ''%'', hexDigit (octet div 16), hexDigit (octet mod 16)]"

definition encodeChar :: "char \<Rightarrow> string" where
  "encodeChar c = (if unescaped c then [c] else concat (map percentEscape (utf8 c)))"

definition encodeURI :: "string \<Rightarrow> string" where
  "encodeURI s = concat (map encodeChar s)"

definition encodedUri :: "LogEntry list \<Rightarrow> string" where
  "encodedUri logs = encodeURI (csvContent logs)"

text \<open>
  \<^verbatim>\<open>link.setAttribute("href", encodedUri)\<close>, \<^verbatim>\<open>link.setAttribute("download", ...)\<close> and
  \<^verbatim>\<open>link.click()\<close>: the browser saves what the link's URL denotes. For a \<^verbatim>\<open>data:\<close> URL
  that is: the fragment (everything from the first \<^verbatim>\<open>#\<close>) is not part of the resource; the
  body is what follows the first comma; and the octets of the file are the body with every
  \<^verbatim>\<open>%XX\<close> replaced by the octet it names. An octet of the file is written as a character.
\<close>

definition hexValue :: "char \<Rightarrow> nat option" where
  "hexValue c =
     (if inRange CHR ''0'' CHR ''9'' c then Some (of_char c - 48)
      else if inRange CHR ''A'' CHR ''F'' c then Some (of_char c - 55)
      else if inRange CHR ''a'' CHR ''f'' c then Some (of_char c - 87)
      else None)"

fun percentDecode :: "string \<Rightarrow> string" where
  "percentDecode (c # h # l # rest) =
     (case (c = CHR ''%'', hexValue h, hexValue l) of
        (True, Some hi, Some lo) \<Rightarrow> char_of (16 * hi + lo) # percentDecode rest
      | _ \<Rightarrow> c # percentDecode (h # l # rest))"
| "percentDecode [c, h] = [c, h]"
| "percentDecode [c] = [c]"
| "percentDecode [] = []"

definition savedFile :: "string \<Rightarrow> string" where
  "savedFile href =
     percentDecode (tl (dropWhile (\<lambda>c. c \<noteq> CHR '','') (takeWhile (\<lambda>c. c \<noteq> CHR ''#'') href)))"

text \<open>The UTF-8 octets of a text, the form in which a file holds it.\<close>

definition utf8_string :: "string \<Rightarrow> string" where
  "utf8_string s = concat (map (\<lambda>c. map char_of (utf8 c)) s)"

text \<open>A plain character: ASCII, and neither \<^verbatim>\<open>#\<close> nor a newline.\<close>

definition plain :: "char \<Rightarrow> bool" where
  "plain c = ((of_char c :: nat) < 128 \<and> c \<noteq> CHR ''#'' \<and> c \<noteq> CHR 0x0A)"

text \<open>
  The lines of a text as a reader of the file sees them: each newline ends a line, and
  what follows the last newline is a line when it is not empty.
\<close>

fun lines_of :: "string \<Rightarrow> string list" where
  "lines_of [] = []"
| "lines_of (c # cs) =
     (if c = CHR 0x0A then [] # lines_of cs
      else (case lines_of cs of [] \<Rightarrow> [[c]] | l # ls \<Rightarrow> (c # l) # ls))"

subsection \<open>Runs of the component\<close>

text \<open>
  The event loop runs one callback at a time. The timer calls the interval callback again
  whatever the previous call did, so a throw leaves the state as it was at the throw and
  the run goes on.
\<close>

datatype event =
    Tick "expressions list option" string
  | Result string

fun step :: "event \<Rightarrow> state \<Rightarrow> state" where
  "step (Tick frame now) s = state_of (tick frame now s)"
| "step (Result transcript) s = onresult transcript s"

fun run :: "event list \<Rightarrow> state \<Rightarrow> state" where
  "run [] s = s"
| "run (ev # evs) s = run evs (step ev s)"

text \<open>Whether an event is a tick that pushes a sample, and how many of a run do.\<close>

fun sampled :: "event \<Rightarrow> bool" where
  "sampled (Tick None now) = False"
| "sampled (Tick (Some detections) now) =
     (length detections > 0 \<and>
      (case strongestEmotion (hd detections) of Inl e \<Rightarrow> False | Inr sample \<Rightarrow> True))"
| "sampled (Result transcript) = False"

definition nsamples :: "event list \<Rightarrow> nat" where
  "nsamples evs = length (filter sampled evs)"

text \<open>
  How many steps of a run change the speech field of the entry at position \<open>i\<close> of the log.
\<close>

fun speech_mutations :: "nat \<Rightarrow> event list \<Rightarrow> state \<Rightarrow> nat" where
  "speech_mutations i [] s = 0"
| "speech_mutations i (ev # evs) s =
     (if i < length (emotionsLog s) \<and>
         speech (emotionsLog (step ev s) ! i) \<noteq> speech (emotionsLog s ! i)
      then 1 else 0) + speech_mutations i evs (step ev s)"

section \<open>Properties\<close>

subsection \<open>The speech handler\<close>

lemma length_amendLast: "length (amendLast t logs) = length logs"
  by (simp add: amendLast_def)

lemma nth_amendLast:
  "i < length logs \<Longrightarrow>
   amendLast t logs ! i = (if Suc i = length logs then (logs ! i)\<lparr>speech := t\<rparr> else logs ! i)"
  by (auto simp: amendLast_def)

lemma amendLast_snoc: "amendLast t (logs @ [e]) = logs @ [e\<lparr>speech := t\<rparr>]"
  by (rule nth_equalityI) (auto simp: length_amendLast nth_amendLast nth_append)

lemma amendLast_eq:
  "logs \<noteq> [] \<Longrightarrow> amendLast t logs = butlast logs @ [(last logs)\<lparr>speech := t\<rparr>]"
  using amendLast_snoc [of t "butlast logs" "last logs"] by simp

text \<open>
  C4. On a log that is not empty, the \<^verbatim>\<open>onresult\<close> handler writes the transcript into the
  speech field of the last entry and nothing else: the log keeps its length, every earlier
  entry is the same, the last entry keeps its time and its emotion, and the buffer and the
  current emotion are untouched.
\<close>

theorem onresult_amends_last_only:
  assumes "emotionsLog s \<noteq> []"
  shows "length (emotionsLog (onresult transcript s)) = length (emotionsLog s) \<and>
         (\<forall>i. Suc i < length (emotionsLog s) \<longrightarrow>
              emotionsLog (onresult transcript s) ! i = emotionsLog s ! i) \<and>
         time (last (emotionsLog (onresult transcript s))) = time (last (emotionsLog s)) \<and>
         emotion (last (emotionsLog (onresult transcript s))) = emotion (last (emotionsLog s)) \<and>
         speech (last (emotionsLog (onresult transcript s))) = transcript \<and>
         emotionBuffer (onresult transcript s) = emotionBuffer s \<and>
         currentEmotion (onresult transcript s) = currentEmotion s"
proof -
  let ?logs = "emotionsLog s"
  have len: "length (amendLast transcript ?logs) = length ?logs"
    by (rule length_amendLast)
  have earlier: "\<forall>i. Suc i < length ?logs \<longrightarrow> amendLast transcript ?logs ! i = ?logs ! i"
    by (simp add: nth_amendLast)
  have lst: "last (amendLast transcript ?logs) = (last ?logs)\<lparr>speech := transcript\<rparr>"
    using assms by (simp add: amendLast_eq)
  show ?thesis
    using len earlier lst by (simp add: onresult_def)
qed

theorem onresult_amends_last_only_witness:
  "emotionsLog \<lparr>emotionBuffer = [], emotionsLog =
       [\<lparr>time = ''08:00:01'', emotion = ''happy'', speech = ''''\<rparr>,
        \<lparr>time = ''08:00:06'', emotion = ''sad'', speech = ''''\<rparr>], currentEmotion = ''sad''\<rparr> \<noteq> [] \<and>
   emotionsLog (onresult ''hello''
     \<lparr>emotionBuffer = [], emotionsLog =
       [\<lparr>time = ''08:00:01'', emotion = ''happy'', speech = ''''\<rparr>,
        \<lparr>time = ''08:00:06'', emotion = ''sad'', speech = ''''\<rparr>], currentEmotion = ''sad''\<rparr>) =
       [\<lparr>time = ''08:00:01'', emotion = ''happy'', speech = ''''\<rparr>,
        \<lparr>time = ''08:00:06'', emotion = ''sad'', speech = ''hello''\<rparr>]"
  using onresult_amends_last_only [of "\<lparr>emotionBuffer = [], emotionsLog =
       [\<lparr>time = ''08:00:01'', emotion = ''happy'', speech = ''''\<rparr>,
        \<lparr>time = ''08:00:06'', emotion = ''sad'', speech = ''''\<rparr>], currentEmotion = ''sad''\<rparr>" "''hello''"]
  by (simp add: onresult_def amendLast_def)

text \<open>
  C5. On an empty log the \<^verbatim>\<open>onresult\<close> handler changes nothing: the log stays empty, of
  length 0, and the transcript is stored nowhere.
\<close>

theorem onresult_empty_log_noop:
  "amendLast transcript [] = [] \<and>
   onresult transcript (s\<lparr>emotionsLog := []\<rparr>) = s\<lparr>emotionsLog := []\<rparr> \<and>
   length (emotionsLog (onresult transcript (s\<lparr>emotionsLog := []\<rparr>))) = 0"
  by (simp add: onresult_def amendLast_def)

text \<open>
  C9. On a log that is not empty, a transcript \<open>t1\<close> followed by a transcript \<open>t2\<close>, with no
  commit between them, leaves the state that \<open>t2\<close> alone leaves: the last entry's speech is
  \<open>t2\<close> and \<open>t1\<close> is lost.
\<close>

theorem onresult_twice_overwrites:
  assumes "emotionsLog s \<noteq> []"
  shows "onresult t2 (onresult t1 s) = onresult t2 s \<and>
         speech (last (emotionsLog (onresult t2 (onresult t1 s)))) = t2"
  using assms by (simp add: onresult_def amendLast_eq)

theorem onresult_twice_overwrites_witness:
  "emotionsLog \<lparr>emotionBuffer = [], emotionsLog =
       [\<lparr>time = ''08:00:01'', emotion = ''happy'', speech = ''''\<rparr>], currentEmotion = ''happy''\<rparr> \<noteq> [] \<and>
   onresult ''second'' (onresult ''first'' \<lparr>emotionBuffer = [], emotionsLog =
       [\<lparr>time = ''08:00:01'', emotion = ''happy'', speech = ''''\<rparr>], currentEmotion = ''happy''\<rparr>) =
   \<lparr>emotionBuffer = [], emotionsLog =
       [\<lparr>time = ''08:00:01'', emotion = ''happy'', speech = ''second''\<rparr>], currentEmotion = ''happy''\<rparr>"
  using onresult_twice_overwrites [of "\<lparr>emotionBuffer = [], emotionsLog =
       [\<lparr>time = ''08:00:01'', emotion = ''happy'', speech = ''''\<rparr>], currentEmotion = ''happy''\<rparr>" "''second''" "''first''"]
  by (simp add: onresult_def amendLast_def)

subsection \<open>The interval callback\<close>

text \<open>The sorted array is a permutation of the entries, in descending order of confidence.\<close>

lemma mset_insort_entry: "mset (insort_entry a bs) = add_mset a (mset bs)"
  by (induction bs) (auto simp: compareFn_def)

lemma mset_sort_entries: "mset (sort_entries emotions) = mset emotions"
  by (induction emotions) (auto simp: mset_insort_entry)

lemma set_sort_entries: "set (sort_entries emotions) = set emotions"
  using mset_sort_entries [of emotions] by (metis set_mset_mset)

lemma sort_entries_Nil_iff: "sort_entries emotions = [] \<longleftrightarrow> emotions = []"
  using mset_sort_entries [of emotions] by (metis mset_zero_iff)

lemma set_insort_entry: "set (insort_entry a bs) = insert a (set bs)"
  using mset_insort_entry [of a bs] by (metis set_mset_mset set_mset_add_mset_insert)

lemma sorted_insort_entry:
  "sorted_wrt (\<lambda>a b. snd a \<ge> snd b) bs \<Longrightarrow> sorted_wrt (\<lambda>a b. snd a \<ge> snd b) (insort_entry a bs)"
  by (induction bs) (auto simp: compareFn_def set_insort_entry)

lemma sorted_sort_entries: "sorted_wrt (\<lambda>a b. snd a \<ge> snd b) (sort_entries emotions)"
  by (induction emotions) (auto simp: sorted_insort_entry)

lemma hd_insort_entry:
  "hd (insort_entry a bs) = (if bs \<noteq> [] \<and> snd a < snd (hd bs) then hd bs else a)"
  by (cases bs) (auto simp: compareFn_def)

lemma hd_sort_entries_max:
  assumes "emotions \<noteq> []" "p \<in> set emotions"
  shows "snd p \<le> snd (hd (sort_entries emotions))"
proof -
  obtain b bs where srt: "sort_entries emotions = b # bs"
    using assms(1) sort_entries_Nil_iff [of emotions] by (cases "sort_entries emotions") auto
  have "p \<in> set (b # bs)" using assms(2) set_sort_entries [of emotions] srt by simp
  moreover have "sorted_wrt (\<lambda>a b. snd a \<ge> snd b) (b # bs)"
    using sorted_sort_entries [of emotions] srt by simp
  ultimately show ?thesis using srt by auto
qed

text \<open>
  Stability: among entries of equal confidence the one that comes first in the mapping
  stays first, so the top entry is the first entry whose confidence is the greatest.
\<close>

lemma hd_sort_entries_first:
  "emotions \<noteq> [] \<Longrightarrow>
   hd (sort_entries emotions) = hd (filter (\<lambda>p. \<forall>q \<in> set emotions. snd q \<le> snd p) emotions)"
proof (induction emotions)
  case Nil
  then show ?case by simp
next
  case (Cons a as)
  show ?case
  proof (cases "as = []")
    case True
    then show ?thesis by simp
  next
    case False
    let ?h = "hd (sort_entries as)"
    have ne: "sort_entries as \<noteq> []" using False sort_entries_Nil_iff by simp
    have hmem: "?h \<in> set as" using ne set_sort_entries [of as] hd_in_set by blast
    have hmax: "\<forall>q \<in> set as. snd q \<le> snd ?h" using False hd_sort_entries_max by blast
    have IH: "?h = hd (filter (\<lambda>p. \<forall>q \<in> set as. snd q \<le> snd p) as)"
      using Cons.IH False by simp
    show ?thesis
    proof (cases "snd a < snd ?h")
      case True
      have notmax: "\<not> (\<forall>q \<in> set (a # as). snd q \<le> snd a)" using True hmem by force
      have same: "filter (\<lambda>p. \<forall>q \<in> set (a # as). snd q \<le> snd p) as
                     = filter (\<lambda>p. \<forall>q \<in> set as. snd q \<le> snd p) as"
      proof (rule filter_cong [OF refl])
        fix p assume "p \<in> set as"
        then have "snd a \<le> snd p \<or> \<not> (\<forall>q \<in> set as. snd q \<le> snd p)"
          using True hmem by force
        then show "(\<forall>q \<in> set (a # as). snd q \<le> snd p) = (\<forall>q \<in> set as. snd q \<le> snd p)"
          by auto
      qed
      have "filter (\<lambda>p. \<forall>q \<in> set (a # as). snd q \<le> snd p) (a # as)
              = filter (\<lambda>p. \<forall>q \<in> set (a # as). snd q \<le> snd p) as"
        using notmax by (simp only: filter.simps if_False)
      then have rhs: "hd (filter (\<lambda>p. \<forall>q \<in> set (a # as). snd q \<le> snd p) (a # as)) = ?h"
        using same IH by (simp only:)
      have lhs: "hd (sort_entries (a # as)) = ?h"
        using True ne by (simp add: hd_insort_entry)
      show ?thesis using lhs rhs by (simp only:)
    next
      case False
      then have "\<forall>q \<in> set (a # as). snd q \<le> snd a" using hmax by force
      then show ?thesis using False by (simp add: hd_insort_entry)
    qed
  qed
qed

text \<open>
  C7. On a tick where the detector finds at least one face, the sample pushed onto the
  buffer comes from the first face's expressions: its entries are sorted by confidence in
  descending order (the sorted array is a permutation of the entries) and the top entry is
  pushed. That entry is an entry of the mapping, no entry has a greater confidence, and
  it is the first such entry. The first face's mapping has at least one entry (the
  detector reports a fixed, non-empty set of labels); on an empty one the callback throws.
\<close>

theorem tick_pushes_strongest:
  assumes "emotions \<noteq> []"
  shows "\<exists>e c. sort_entries emotions \<noteq> [] \<and> hd (sort_entries emotions) = (e, c) \<and>
           sorted_wrt (\<lambda>a b. snd a \<ge> snd b) (sort_entries emotions) \<and>
           mset (sort_entries emotions) = mset emotions \<and>
           (e, c) \<in> set emotions \<and> (\<forall>p \<in> set emotions. snd p \<le> c) \<and>
           (e, c) = hd (filter (\<lambda>p. \<forall>q \<in> set emotions. snd q \<le> snd p) emotions) \<and>
           tick (Some (emotions # others)) now s =
             afterPush now (s\<lparr>emotionBuffer := emotionBuffer s @
                                 [\<lparr>ExpressionSample.emotion = e, confidence = c\<rparr>]\<rparr>)"
proof -
  obtain e c where top: "hd (sort_entries emotions) = (e, c)"
    by (cases "hd (sort_entries emotions)") auto
  have ne: "sort_entries emotions \<noteq> []" using assms sort_entries_Nil_iff by simp
  have mem: "(e, c) \<in> set emotions"
    using ne top set_sort_entries [of emotions] hd_in_set [of "sort_entries emotions"] by simp
  have mx: "\<forall>p \<in> set emotions. snd p \<le> c"
    using hd_sort_entries_max [OF assms] top by simp
  have str: "strongestEmotion emotions = Inr \<lparr>ExpressionSample.emotion = e, confidence = c\<rparr>"
    using ne top by (cases "sort_entries emotions") (auto simp: strongestEmotion_def)
  have tk: "tick (Some (emotions # others)) now s =
             afterPush now (s\<lparr>emotionBuffer := emotionBuffer s @
                                 [\<lparr>ExpressionSample.emotion = e, confidence = c\<rparr>]\<rparr>)"
    by (simp add: tick_def str)
  have fst: "(e, c) = hd (filter (\<lambda>p. \<forall>q \<in> set emotions. snd q \<le> snd p) emotions)"
    using hd_sort_entries_first [OF assms] top by simp
  show ?thesis
    using top ne mem mx fst tk sorted_sort_entries [of emotions] mset_sort_entries [of emotions]
    by blast
qed

theorem tick_pushes_strongest_witness:
  "[(''neutral'', 1/10), (''happy'', 4/10), (''sad'', 4/10), (''angry'', 1/10)] \<noteq> [] \<and>
   (\<exists>e c. hd (sort_entries [(''neutral'', 1/10), (''happy'', 4/10), (''sad'', 4/10), (''angry'', 1/10)]) = (e, c) \<and>
      tick (Some [[(''neutral'', 1/10), (''happy'', 4/10), (''sad'', 4/10), (''angry'', 1/10)]])
           ''08:00:01'' initial =
        afterPush ''08:00:01'' (initial\<lparr>emotionBuffer := emotionBuffer initial @
                                 [\<lparr>ExpressionSample.emotion = e, confidence = c\<rparr>]\<rparr>)) \<and>
   tick (Some [[(''neutral'', 1/10), (''happy'', 4/10), (''sad'', 4/10), (''angry'', 1/10)]])
        ''08:00:01'' initial =
     Completed \<lparr>emotionBuffer = [\<lparr>ExpressionSample.emotion = ''happy'', confidence = 4/10\<rparr>],
                emotionsLog = [], currentEmotion = ''''\<rparr>"
proof -
  have ne: "[(''neutral'', 1/10), (''happy'', 4/10), (''sad'', 4/10), (''angry'', 1/10::real)] \<noteq> []"
    by simp
  have ev: "tick (Some [[(''neutral'', 1/10), (''happy'', 4/10), (''sad'', 4/10), (''angry'', 1/10)]])
        ''08:00:01'' initial =
     Completed \<lparr>emotionBuffer = [\<lparr>ExpressionSample.emotion = ''happy'', confidence = 4/10\<rparr>],
                emotionsLog = [], currentEmotion = ''''\<rparr>"
    by (simp add: tick_def strongestEmotion_def compareFn_def afterPush_def initial_def)
  show ?thesis
    using tick_pushes_strongest [OF ne, of "[]" "''08:00:01''" initial] ev ne by blast
qed

text \<open>
  The reduction keeps \<^verbatim>\<open>prev\<close> only when it is strictly greater, so of several samples of
  the greatest confidence the latest one wins.
\<close>

lemma foldl_pick_latest_max:
  "\<exists>k < length (x # xs). foldl pick x xs = (x # xs) ! k \<and>
      (\<forall>j < length (x # xs). confidence ((x # xs) ! j) \<le> confidence ((x # xs) ! k)) \<and>
      (\<forall>j < length (x # xs). k < j \<longrightarrow> confidence ((x # xs) ! j) < confidence ((x # xs) ! k))"
proof (induction xs rule: rev_induct)
  case Nil
  then show ?case by simp
next
  case (snoc y xs)
  define ys where "ys = x # xs"
  define zs where "zs = x # xs @ [y]"
  define n where "n = length ys"
  obtain k where k: "k < n" "foldl pick x xs = ys ! k"
    and le: "\<And>j. j < n \<Longrightarrow> confidence (ys ! j) \<le> confidence (ys ! k)"
    and lt: "\<And>j. j < n \<Longrightarrow> k < j \<Longrightarrow> confidence (ys ! j) < confidence (ys ! k)"
    using snoc unfolding ys_def n_def by blast
  have zs: "zs = ys @ [y]" by (simp add: zs_def ys_def)
  have nth_old: "\<And>j. j < n \<Longrightarrow> zs ! j = ys ! j"
    by (simp add: zs n_def nth_append)
  have nth_new: "zs ! n = y"
    by (simp add: zs n_def)
  have len: "length zs = Suc n" by (simp add: zs n_def)
  have fold: "foldl pick x (xs @ [y]) = pick (ys ! k) y" using k(2) by simp
  have "\<exists>k < length zs. foldl pick x (xs @ [y]) = zs ! k \<and>
      (\<forall>j < length zs. confidence (zs ! j) \<le> confidence (zs ! k)) \<and>
      (\<forall>j < length zs. k < j \<longrightarrow> confidence (zs ! j) < confidence (zs ! k))"
  proof (cases "confidence (ys ! k) > confidence y")
    case True
    have res: "foldl pick x (xs @ [y]) = zs ! k"
      using True k(1) nth_old fold by (simp add: pick_def)
    have a: "\<forall>j < length zs. confidence (zs ! j) \<le> confidence (zs ! k)"
    proof (intro allI impI)
      fix j assume "j < length zs"
      then consider "j < n" | "j = n" using len by linarith
      then show "confidence (zs ! j) \<le> confidence (zs ! k)"
      proof cases
        case 1 then show ?thesis using le [of j] nth_old k(1) by simp
      next
        case 2 then show ?thesis using True nth_new nth_old k(1) by simp
      qed
    qed
    have b: "\<forall>j < length zs. k < j \<longrightarrow> confidence (zs ! j) < confidence (zs ! k)"
    proof (intro allI impI)
      fix j assume "j < length zs" "k < j"
      then consider "j < n" | "j = n" using len by linarith
      then show "confidence (zs ! j) < confidence (zs ! k)"
      proof cases
        case 1 then show ?thesis using lt [of j] \<open>k < j\<close> nth_old k(1) by simp
      next
        case 2 then show ?thesis using True nth_new nth_old k(1) by simp
      qed
    qed
    have "k < length zs" using k(1) len by simp
    then show ?thesis using res a b by blast
  next
    case False
    have res: "foldl pick x (xs @ [y]) = zs ! n"
      using False fold nth_new by (simp add: pick_def)
    have a: "\<forall>j < length zs. confidence (zs ! j) \<le> confidence (zs ! n)"
    proof (intro allI impI)
      fix j assume "j < length zs"
      then consider "j < n" | "j = n" using len by linarith
      then show "confidence (zs ! j) \<le> confidence (zs ! n)"
      proof cases
        case 1
        then have "confidence (ys ! j) \<le> confidence (ys ! k)" using le by simp
        then show ?thesis using False 1 nth_old nth_new by simp
      next
        case 2 then show ?thesis by simp
      qed
    qed
    have b: "\<forall>j < length zs. n < j \<longrightarrow> confidence (zs ! j) < confidence (zs ! n)"
      using len by simp
    have "n < length zs" using len by simp
    then show ?thesis using res a b by blast
  qed
  then show ?case by (simp add: zs_def)
qed

text \<open>
  C1, as the code has it. When the callback finds five samples in the buffer it commits one
  entry whose emotion is that of the \<^emph>\<open>latest\<close> sample of the greatest confidence: no
  sample has a greater confidence than the winner, and every sample after it has a
  strictly smaller one. The buffer is emptied and the current emotion is set to the winner's.
\<close>

theorem afterPush_commits_latest_max:
  assumes "length (emotionBuffer s) = 5"
  shows "\<exists>k<5.
           afterPush now s =
             Completed (s\<lparr>currentEmotion := ExpressionSample.emotion (emotionBuffer s ! k),
                          emotionsLog := emotionsLog s @
                            [\<lparr>time = now,
                              emotion = ExpressionSample.emotion (emotionBuffer s ! k),
                              speech = ''''\<rparr>],
                          emotionBuffer := []\<rparr>) \<and>
           (\<forall>j<5. confidence (emotionBuffer s ! j) \<le> confidence (emotionBuffer s ! k)) \<and>
           (\<forall>j<5. k < j \<longrightarrow> confidence (emotionBuffer s ! j) < confidence (emotionBuffer s ! k))"
proof -
  obtain x xs where buf: "emotionBuffer s = x # xs"
    using assms by (cases "emotionBuffer s") auto
  have len: "length (x # xs) = 5" using assms buf by simp
  obtain k where k: "k < length (x # xs)" "foldl pick x xs = (x # xs) ! k"
    and le: "\<forall>j < length (x # xs). confidence ((x # xs) ! j) \<le> confidence ((x # xs) ! k)"
    and lt: "\<forall>j < length (x # xs). k < j \<longrightarrow> confidence ((x # xs) ! j) < confidence ((x # xs) ! k)"
    using foldl_pick_latest_max [of x xs] by blast
  have red: "reduce pick (emotionBuffer s) = Inr (emotionBuffer s ! k)"
    using buf k(2) by (simp add: reduce_def)
  have ap: "afterPush now s =
             Completed (s\<lparr>currentEmotion := ExpressionSample.emotion (emotionBuffer s ! k),
                          emotionsLog := emotionsLog s @
                            [\<lparr>time = now,
                              emotion = ExpressionSample.emotion (emotionBuffer s ! k),
                              speech = ''''\<rparr>],
                          emotionBuffer := []\<rparr>)"
    using assms red by (simp add: afterPush_def)
  have k5: "k < 5" using k(1) len by simp
  have le5: "\<forall>j<5. confidence (emotionBuffer s ! j) \<le> confidence (emotionBuffer s ! k)"
    using le len buf by simp
  have lt5: "\<forall>j<5. k < j \<longrightarrow> confidence (emotionBuffer s ! j) < confidence (emotionBuffer s ! k)"
    using lt len buf by simp
  show ?thesis using k5 ap le5 lt5 by blast
qed

theorem afterPush_commits_latest_max_witness:
  "length (emotionBuffer \<lparr>emotionBuffer =
       [\<lparr>ExpressionSample.emotion = ''a'', confidence = 2/10\<rparr>,
        \<lparr>ExpressionSample.emotion = ''b'', confidence = 9/10\<rparr>,
        \<lparr>ExpressionSample.emotion = ''c'', confidence = 9/10\<rparr>,
        \<lparr>ExpressionSample.emotion = ''d'', confidence = 1/10\<rparr>,
        \<lparr>ExpressionSample.emotion = ''e'', confidence = 3/10\<rparr>],
       emotionsLog = [], currentEmotion = ''''\<rparr>) = 5 \<and>
   afterPush ''08:00:05'' \<lparr>emotionBuffer =
       [\<lparr>ExpressionSample.emotion = ''a'', confidence = 2/10\<rparr>,
        \<lparr>ExpressionSample.emotion = ''b'', confidence = 9/10\<rparr>,
        \<lparr>ExpressionSample.emotion = ''c'', confidence = 9/10\<rparr>,
        \<lparr>ExpressionSample.emotion = ''d'', confidence = 1/10\<rparr>,
        \<lparr>ExpressionSample.emotion = ''e'', confidence = 3/10\<rparr>],
       emotionsLog = [], currentEmotion = ''''\<rparr> =
     Completed \<lparr>emotionBuffer = [],
                emotionsLog = [\<lparr>time = ''08:00:05'', emotion = ''c'', speech = ''''\<rparr>],
                currentEmotion = ''c''\<rparr>"
proof -
  let ?s = "\<lparr>emotionBuffer =
       [\<lparr>ExpressionSample.emotion = ''a'', confidence = 2/10\<rparr>,
        \<lparr>ExpressionSample.emotion = ''b'', confidence = 9/10\<rparr>,
        \<lparr>ExpressionSample.emotion = ''c'', confidence = 9/10\<rparr>,
        \<lparr>ExpressionSample.emotion = ''d'', confidence = 1/10\<rparr>,
        \<lparr>ExpressionSample.emotion = ''e'', confidence = 3/10\<rparr>],
       emotionsLog = [], currentEmotion = ''''\<rparr>"
  have len: "length (emotionBuffer ?s) = 5" by simp
  have ev: "afterPush ''08:00:05'' ?s =
     Completed \<lparr>emotionBuffer = [],
                emotionsLog = [\<lparr>time = ''08:00:05'', emotion = ''c'', speech = ''''\<rparr>],
                currentEmotion = ''c''\<rparr>"
    by (simp add: afterPush_def reduce_def pick_def)
  show ?thesis
    using afterPush_commits_latest_max [OF len, of "''08:00:05''"] len ev by blast
qed

text \<open>
  C1, as the specification states it, fails. Five ticks whose samples have the confidences
  0.2, 0.9, 0.9, 0.1, 0.3 and the emotions a, b, c, d, e commit the emotion c: on the tie
  between b and c the comparison \<^verbatim>\<open>prev.confidence > current.confidence\<close> is false
  and \<^verbatim>\<open>current\<close> is kept.
\<close>

theorem commit_first_occurrence_counterexample:
  "emotionsLog (run [Tick (Some [[(''a'', 2/10)]]) ''08:00:01'',
                     Tick (Some [[(''b'', 9/10)]]) ''08:00:02'',
                     Tick (Some [[(''c'', 9/10)]]) ''08:00:03'',
                     Tick (Some [[(''d'', 1/10)]]) ''08:00:04'',
                     Tick (Some [[(''e'', 3/10)]]) ''08:00:05''] initial) =
     [\<lparr>time = ''08:00:05'', emotion = ''c'', speech = ''''\<rparr>] \<and>
   LogEntry.emotion (last (emotionsLog (run [Tick (Some [[(''a'', 2/10)]]) ''08:00:01'',
                     Tick (Some [[(''b'', 9/10)]]) ''08:00:02'',
                     Tick (Some [[(''c'', 9/10)]]) ''08:00:03'',
                     Tick (Some [[(''d'', 1/10)]]) ''08:00:04'',
                     Tick (Some [[(''e'', 3/10)]]) ''08:00:05''] initial))) \<noteq> ''b''"
  by (simp add: initial_def tick_def strongestEmotion_def afterPush_def reduce_def pick_def)

text \<open>
  C8. A tick in which the detector finds no face completes without touching anything: the
  buffer, its length and the log after the tick are those before it.
\<close>

theorem tick_no_face_noop:
  "tick (Some []) now s = Completed s \<and>
   emotionBuffer (step (Tick (Some []) now) s) = emotionBuffer s \<and>
   emotionsLog (step (Tick (Some []) now) s) = emotionsLog s \<and>
   step (Tick (Some []) now) s = s"
  by (simp add: tick_def)

subsection \<open>Runs\<close>

text \<open>
  What one step does to the sizes of the buffer and of the log, and what a run does.
\<close>

lemma afterPush_short:
  "length (emotionBuffer s) < 5 \<Longrightarrow> afterPush now s = Completed s"
  by (simp add: afterPush_def)

lemma afterPush_full:
  "length (emotionBuffer s) \<ge> 5 \<Longrightarrow>
   \<exists>entry cur. afterPush now s =
      Completed (s\<lparr>currentEmotion := cur, emotionsLog := emotionsLog s @ [entry],
                   emotionBuffer := []\<rparr>) \<and> time entry = now \<and> speech entry = ''''"
  by (cases "emotionBuffer s") (auto simp: afterPush_def reduce_def)

lemma step_not_sampled:
  "\<not> sampled (Tick frame now) \<Longrightarrow> step (Tick frame now) s = s"
  by (cases frame) (auto simp: tick_def split: sum.splits)

lemma step_sampled:
  "sampled (Tick frame now) \<Longrightarrow>
   \<exists>sample. step (Tick frame now) s =
      state_of (afterPush now (s\<lparr>emotionBuffer := emotionBuffer s @ [sample]\<rparr>))"
  by (cases frame) (auto simp: tick_def split: sum.splits)

lemma step_sampled_short:
  assumes "sampled (Tick frame now)" "length (emotionBuffer s) < 4"
  shows "emotionsLog (step (Tick frame now) s) = emotionsLog s \<and>
         length (emotionBuffer (step (Tick frame now) s)) = Suc (length (emotionBuffer s))"
proof -
  obtain sample where st: "step (Tick frame now) s =
      state_of (afterPush now (s\<lparr>emotionBuffer := emotionBuffer s @ [sample]\<rparr>))"
    using step_sampled [OF assms(1)] by blast
  have "afterPush now (s\<lparr>emotionBuffer := emotionBuffer s @ [sample]\<rparr>) =
          Completed (s\<lparr>emotionBuffer := emotionBuffer s @ [sample]\<rparr>)"
    using assms(2) by (simp add: afterPush_short)
  then show ?thesis using st by simp
qed

lemma step_sampled_full:
  assumes "sampled (Tick frame now)" "length (emotionBuffer s) \<ge> 4"
  shows "(\<exists>entry. emotionsLog (step (Tick frame now) s) = emotionsLog s @ [entry] \<and>
                  time entry = now \<and> speech entry = '''') \<and>
         emotionBuffer (step (Tick frame now) s) = []"
proof -
  obtain sample where st: "step (Tick frame now) s =
      state_of (afterPush now (s\<lparr>emotionBuffer := emotionBuffer s @ [sample]\<rparr>))"
    using step_sampled [OF assms(1)] by blast
  let ?p = "s\<lparr>emotionBuffer := emotionBuffer s @ [sample]\<rparr>"
  have "length (emotionBuffer ?p) \<ge> 5" using assms(2) by simp
  then obtain entry cur where ap: "afterPush now ?p =
      Completed (?p\<lparr>currentEmotion := cur, emotionsLog := emotionsLog ?p @ [entry],
                   emotionBuffer := []\<rparr>)" and e: "time entry = now" "speech entry = ''''"
    using afterPush_full [of ?p now] by blast
  show ?thesis using st ap e by simp
qed

lemma step_Result_buffer:
  "emotionBuffer (step (Result t) s) = emotionBuffer s \<and>
   length (emotionsLog (step (Result t) s)) = length (emotionsLog s)"
  by (simp add: onresult_def length_amendLast)

lemma nsamples_Cons:
  "nsamples (ev # evs) = (if sampled ev then Suc (nsamples evs) else nsamples evs)"
  by (simp add: nsamples_def)

lemma step_counts:
  assumes "length (emotionBuffer s) < 5"
  shows "length (emotionBuffer (step ev s)) =
           (length (emotionBuffer s) + (if sampled ev then 1 else 0)) mod 5 \<and>
         length (emotionsLog (step ev s)) =
           length (emotionsLog s) + (length (emotionBuffer s) + (if sampled ev then 1 else 0)) div 5"
proof (cases ev)
  case (Result t)
  then show ?thesis using assms step_Result_buffer [of t s] by simp
next
  case (Tick frame now)
  show ?thesis
  proof (cases "sampled ev")
    case False
    then show ?thesis using assms Tick step_not_sampled [of frame now s] by simp
  next
    case True
    show ?thesis
    proof (cases "length (emotionBuffer s) < 4")
      case True
      then show ?thesis
        using \<open>sampled ev\<close> Tick step_sampled_short [of frame now s] by simp
    next
      case False
      then have four: "length (emotionBuffer s) = 4" using assms by simp
      then show ?thesis
        using \<open>sampled ev\<close> Tick step_sampled_full [of frame now s] by auto
    qed
  qed
qed

lemma run_counts:
  "length (emotionBuffer s) < 5 \<Longrightarrow>
   length (emotionBuffer (run evs s)) = (length (emotionBuffer s) + nsamples evs) mod 5 \<and>
   length (emotionsLog (run evs s)) =
     length (emotionsLog s) + (length (emotionBuffer s) + nsamples evs) div 5"
proof (induction evs arbitrary: s)
  case Nil
  then show ?case by (simp add: nsamples_def)
next
  case (Cons ev evs)
  define b where "b = length (emotionBuffer s)"
  define d where "d = (if sampled ev then 1 else (0::nat))"
  define n where "n = nsamples evs"
  have st: "length (emotionBuffer (step ev s)) = (b + d) mod 5"
       "length (emotionsLog (step ev s)) = length (emotionsLog s) + (b + d) div 5"
    using step_counts [OF Cons.prems, of ev] by (simp_all add: b_def d_def)
  have lt: "length (emotionBuffer (step ev s)) < 5" using st(1) by simp
  have ns: "nsamples (ev # evs) = d + n" by (simp add: nsamples_Cons d_def n_def)
  have m: "((b + d) mod 5 + n) mod 5 = (b + (d + n)) mod 5"
    by (simp add: mod_add_left_eq add.assoc)
  have dv: "(b + d) div 5 + ((b + d) mod 5 + n) div 5 = (b + (d + n)) div 5"
  proof -
    define q r where "q = (b + d) div 5" and "r = (b + d) mod 5"
    have "b + d = 5 * q + r" by (simp add: q_def r_def)
    then have "b + (d + n) = 5 * q + (r + n)" by simp
    then have "(b + (d + n)) div 5 = q + (r + n) div 5" by simp
    then show ?thesis by (simp add: q_def r_def)
  qed
  have "length (emotionBuffer (run evs (step ev s))) = ((b + d) mod 5 + n) mod 5"
    using Cons.IH [OF lt] st(1) by (simp add: n_def)
  moreover have "length (emotionsLog (run evs (step ev s))) =
      length (emotionsLog s) + (b + d) div 5 + ((b + d) mod 5 + n) div 5"
    using Cons.IH [OF lt] st by (simp add: n_def)
  ultimately show ?case
    using m dv ns by (simp add: b_def)
qed

text \<open>
  C2. In every run from the initial state (ticks, with transcripts arriving in between),
  the buffer holds the number of samples pushed so far modulo 5 and the log has one entry
  for every five samples; a run with fewer than five samples commits nothing. A further
  tick commits, adding exactly one entry and leaving the buffer empty, when and only when it
  pushes a sample that brings the buffer to five; every other tick leaves the log
  as it is and the buffer with fewer than five samples.
\<close>

theorem buffer_flush_invariant:
  assumes "s = run evs initial" and "s' = step (Tick frame now) s"
  shows "length (emotionBuffer s) = nsamples evs mod 5 \<and>
         length (emotionsLog s) = nsamples evs div 5 \<and>
         (nsamples evs < 5 \<longrightarrow> emotionsLog s = []) \<and>
         (if sampled (Tick frame now) \<and> length (emotionBuffer s) + 1 = 5
          then (\<exists>entry. emotionsLog s' = emotionsLog s @ [entry]) \<and> emotionBuffer s' = []
          else emotionsLog s' = emotionsLog s \<and> length (emotionBuffer s') < 5)"
proof -
  have init: "length (emotionBuffer initial) < 5" by (simp add: initial_def)
  have cnt: "length (emotionBuffer s) = nsamples evs mod 5"
            "length (emotionsLog s) = nsamples evs div 5"
    using run_counts [OF init, of evs] assms(1) by (simp_all add: initial_def)
  have lt: "length (emotionBuffer s) < 5" using cnt(1) by simp
  have few: "nsamples evs < 5 \<longrightarrow> emotionsLog s = []"
  proof
    assume "nsamples evs < 5"
    then have "nsamples evs div 5 = 0" by simp
    then show "emotionsLog s = []" using cnt(2) by simp
  qed
  have tk: "if sampled (Tick frame now) \<and> length (emotionBuffer s) + 1 = 5
          then (\<exists>entry. emotionsLog s' = emotionsLog s @ [entry]) \<and> emotionBuffer s' = []
          else emotionsLog s' = emotionsLog s \<and> length (emotionBuffer s') < 5"
  proof (cases "sampled (Tick frame now)")
    case False
    then show ?thesis using lt assms(2) step_not_sampled [of frame now s] by simp
  next
    case True
    show ?thesis
    proof (cases "length (emotionBuffer s) < 4")
      case True
      then show ?thesis
        using \<open>sampled (Tick frame now)\<close> assms(2) step_sampled_short [of frame now s] by simp
    next
      case False
      then have "length (emotionBuffer s) = 4" using lt by simp
      then show ?thesis
        using \<open>sampled (Tick frame now)\<close> assms(2) step_sampled_full [of frame now s] by auto
    qed
  qed
  show ?thesis using cnt few tk by blast
qed


theorem buffer_flush_invariant_witness:
  "nsamples [Tick (Some [[(''a'', 1/5)]]) ''08:00:01'',
               Tick (Some []) ''08:00:02'',
               Tick (Some [[(''b'', 9/10)]]) ''08:00:03'',
               Result ''hello'',
               Tick (Some [[(''c'', 9/10)]]) ''08:00:04'',
               Tick (Some [[(''d'', 1/10)]]) ''08:00:05''] = 4 \<and>
   length (emotionBuffer (run [Tick (Some [[(''a'', 1/5)]]) ''08:00:01'',
               Tick (Some []) ''08:00:02'',
               Tick (Some [[(''b'', 9/10)]]) ''08:00:03'',
               Result ''hello'',
               Tick (Some [[(''c'', 9/10)]]) ''08:00:04'',
               Tick (Some [[(''d'', 1/10)]]) ''08:00:05''] initial)) = 4 \<and>
   emotionsLog (run [Tick (Some [[(''a'', 1/5)]]) ''08:00:01'',
               Tick (Some []) ''08:00:02'',
               Tick (Some [[(''b'', 9/10)]]) ''08:00:03'',
               Result ''hello'',
               Tick (Some [[(''c'', 9/10)]]) ''08:00:04'',
               Tick (Some [[(''d'', 1/10)]]) ''08:00:05''] initial) = [] \<and>
   (\<exists>entry. emotionsLog (step (Tick (Some [[(''e'', 3/10)]]) ''08:00:06'') (run [Tick (Some [[(''a'', 1/5)]]) ''08:00:01'',
               Tick (Some []) ''08:00:02'',
               Tick (Some [[(''b'', 9/10)]]) ''08:00:03'',
               Result ''hello'',
               Tick (Some [[(''c'', 9/10)]]) ''08:00:04'',
               Tick (Some [[(''d'', 1/10)]]) ''08:00:05''] initial)) =
             emotionsLog (run [Tick (Some [[(''a'', 1/5)]]) ''08:00:01'',
               Tick (Some []) ''08:00:02'',
               Tick (Some [[(''b'', 9/10)]]) ''08:00:03'',
               Result ''hello'',
               Tick (Some [[(''c'', 9/10)]]) ''08:00:04'',
               Tick (Some [[(''d'', 1/10)]]) ''08:00:05''] initial) @ [entry]) \<and>
   emotionBuffer (step (Tick (Some [[(''e'', 3/10)]]) ''08:00:06'') (run [Tick (Some [[(''a'', 1/5)]]) ''08:00:01'',
               Tick (Some []) ''08:00:02'',
               Tick (Some [[(''b'', 9/10)]]) ''08:00:03'',
               Result ''hello'',
               Tick (Some [[(''c'', 9/10)]]) ''08:00:04'',
               Tick (Some [[(''d'', 1/10)]]) ''08:00:05''] initial)) = []"
proof -
  let ?evs = "[Tick (Some [[(''a'', 1/5)]]) ''08:00:01'',
               Tick (Some []) ''08:00:02'',
               Tick (Some [[(''b'', 9/10)]]) ''08:00:03'',
               Result ''hello'',
               Tick (Some [[(''c'', 9/10)]]) ''08:00:04'',
               Tick (Some [[(''d'', 1/10)]]) ''08:00:05'']"
  have ns: "nsamples ?evs = 4"
    by (simp add: nsamples_def strongestEmotion_def)
  have smp: "sampled (Tick (Some [[(''e'', 3/10)]]) ''08:00:06'')"
    by (simp add: strongestEmotion_def)
  note inv = buffer_flush_invariant [OF refl refl, of ?evs "Some [[(''e'', 3/10)]]" "''08:00:06''"]
  have len: "length (emotionBuffer (run ?evs initial)) = 4"
    using inv ns by (simp del: run.simps step.simps sampled.simps)
  have nolog: "emotionsLog (run ?evs initial) = []"
    using inv ns by (simp del: run.simps step.simps sampled.simps)
  have "if sampled (Tick (Some [[(''e'', 3/10)]]) ''08:00:06'') \<and>
           length (emotionBuffer (run ?evs initial)) + 1 = 5
        then (\<exists>entry. emotionsLog (step (Tick (Some [[(''e'', 3/10)]]) ''08:00:06'') (run ?evs initial)) =
                 emotionsLog (run ?evs initial) @ [entry]) \<and>
             emotionBuffer (step (Tick (Some [[(''e'', 3/10)]]) ''08:00:06'') (run ?evs initial)) = []
        else emotionsLog (step (Tick (Some [[(''e'', 3/10)]]) ''08:00:06'') (run ?evs initial)) =
                 emotionsLog (run ?evs initial) \<and>
             length (emotionBuffer (step (Tick (Some [[(''e'', 3/10)]]) ''08:00:06'') (run ?evs initial))) < 5"
    using inv by blast
  then have commit: "(\<exists>entry. emotionsLog (step (Tick (Some [[(''e'', 3/10)]]) ''08:00:06'') (run ?evs initial)) =
                 emotionsLog (run ?evs initial) @ [entry]) \<and>
             emotionBuffer (step (Tick (Some [[(''e'', 3/10)]]) ''08:00:06'') (run ?evs initial)) = []"
    using smp len by (simp only: simp_thms if_True)
  show ?thesis
    using ns len nolog commit by blast
qed

text \<open>What one step, and then a run, leaves of the log as it was.\<close>

lemma tick_log:
  "emotionsLog (step (Tick frame now) s) = emotionsLog s \<or>
   (\<exists>entry. emotionsLog (step (Tick frame now) s) = emotionsLog s @ [entry])"
proof (cases "sampled (Tick frame now)")
  case False
  then show ?thesis using step_not_sampled [of frame now s] by simp
next
  case True
  then obtain sample where st: "step (Tick frame now) s =
      state_of (afterPush now (s\<lparr>emotionBuffer := emotionBuffer s @ [sample]\<rparr>))"
    using step_sampled by blast
  let ?p = "s\<lparr>emotionBuffer := emotionBuffer s @ [sample]\<rparr>"
  show ?thesis
  proof (cases "length (emotionBuffer ?p) < 5")
    case True
    then have "afterPush now ?p = Completed ?p" by (rule afterPush_short)
    then show ?thesis using st by simp
  next
    case False
    then have "length (emotionBuffer ?p) \<ge> 5" by simp
    then obtain entry cur where "afterPush now ?p =
      Completed (?p\<lparr>currentEmotion := cur, emotionsLog := emotionsLog ?p @ [entry],
                   emotionBuffer := []\<rparr>)"
      using afterPush_full [of ?p now] by blast
    then show ?thesis using st by simp
  qed
qed

lemma step_log_frame:
  "length (emotionsLog s) \<le> length (emotionsLog (step ev s)) \<and>
   (\<forall>i<length (emotionsLog s).
      time (emotionsLog (step ev s) ! i) = time (emotionsLog s ! i) \<and>
      LogEntry.emotion (emotionsLog (step ev s) ! i) = LogEntry.emotion (emotionsLog s ! i)) \<and>
   (\<forall>i. Suc i < length (emotionsLog s) \<longrightarrow> emotionsLog (step ev s) ! i = emotionsLog s ! i)"
proof (cases ev)
  case (Result t)
  then show ?thesis by (simp add: onresult_def length_amendLast nth_amendLast)
next
  case (Tick frame now)
  then show ?thesis using tick_log [of frame now s] by (auto simp: nth_append)
qed

lemma step_speech_change:
  assumes "i < length (emotionsLog s)"
    and "speech (emotionsLog (step ev s) ! i) \<noteq> speech (emotionsLog s ! i)"
  shows "\<exists>t. ev = Result t \<and> Suc i = length (emotionsLog s) \<and>
             speech (emotionsLog (step ev s) ! i) = t"
proof (cases ev)
  case (Result t)
  then show ?thesis using assms
    by (auto simp: onresult_def nth_amendLast split: if_splits)
next
  case (Tick frame now)
  then show ?thesis using assms tick_log [of frame now s] by (auto simp: nth_append)
qed

lemma run_log_frame:
  "length (emotionsLog s) \<le> length (emotionsLog (run evs s)) \<and>
   (\<forall>i<length (emotionsLog s).
      time (emotionsLog (run evs s) ! i) = time (emotionsLog s ! i) \<and>
      LogEntry.emotion (emotionsLog (run evs s) ! i) = LogEntry.emotion (emotionsLog s ! i)) \<and>
   (\<forall>i. Suc i < length (emotionsLog s) \<longrightarrow> emotionsLog (run evs s) ! i = emotionsLog s ! i)"
proof (induction evs arbitrary: s)
  case Nil
  then show ?case by simp
next
  case (Cons ev evs)
  note st = step_log_frame [of s ev]
  note ih = Cons.IH [of "step ev s"]
  have len: "length (emotionsLog s) \<le> length (emotionsLog (run evs (step ev s)))"
    using st ih by linarith
  have te: "\<forall>i<length (emotionsLog s).
      time (emotionsLog (run evs (step ev s)) ! i) = time (emotionsLog s ! i) \<and>
      LogEntry.emotion (emotionsLog (run evs (step ev s)) ! i) = LogEntry.emotion (emotionsLog s ! i)"
  proof (intro allI impI)
    fix i assume i: "i < length (emotionsLog s)"
    then have "i < length (emotionsLog (step ev s))" using st by linarith
    then show "time (emotionsLog (run evs (step ev s)) ! i) = time (emotionsLog s ! i) \<and>
      LogEntry.emotion (emotionsLog (run evs (step ev s)) ! i) = LogEntry.emotion (emotionsLog s ! i)"
      using ih st i by simp
  qed
  have earlier: "\<forall>i. Suc i < length (emotionsLog s) \<longrightarrow>
      emotionsLog (run evs (step ev s)) ! i = emotionsLog s ! i"
  proof (intro allI impI)
    fix i assume i: "Suc i < length (emotionsLog s)"
    then have "Suc i < length (emotionsLog (step ev s))" using st by linarith
    then show "emotionsLog (run evs (step ev s)) ! i = emotionsLog s ! i"
      using ih st i by simp
  qed
  show ?case using len te earlier by simp
qed

text \<open>
  C6, as the code has it. From any state and over any run, no entry leaves the log or
  changes its position, every entry keeps its time and its emotion, and an entry that is
  not the last one is never changed again. In one step the speech of an entry changes
  only when the step is the speech handler and the entry is the last of the log, and
  then it becomes the transcript. Nothing limits how often that happens to one entry.
\<close>

theorem log_entries_frame:
  "length (emotionsLog s) \<le> length (emotionsLog (run evs s)) \<and>
   (\<forall>i<length (emotionsLog s).
      time (emotionsLog (run evs s) ! i) = time (emotionsLog s ! i) \<and>
      LogEntry.emotion (emotionsLog (run evs s) ! i) = LogEntry.emotion (emotionsLog s ! i)) \<and>
   (\<forall>i. Suc i < length (emotionsLog s) \<longrightarrow> emotionsLog (run evs s) ! i = emotionsLog s ! i) \<and>
   (\<forall>i<length (emotionsLog s).
      speech (emotionsLog (step ev s) ! i) \<noteq> speech (emotionsLog s ! i) \<longrightarrow>
      (\<exists>t. ev = Result t \<and> Suc i = length (emotionsLog s) \<and>
           speech (emotionsLog (step ev s) ! i) = t))"
  using run_log_frame [of s evs] step_speech_change [of _ s ev] by blast

theorem log_entries_frame_witness:
  "1 < length (emotionsLog \<lparr>emotionBuffer = [],
         emotionsLog = [\<lparr>time = ''08:00:05'', emotion = ''happy'', speech = ''''\<rparr>,
                        \<lparr>time = ''08:00:10'', emotion = ''sad'', speech = ''''\<rparr>],
         currentEmotion = ''sad''\<rparr>) \<and>
   Suc 0 < length (emotionsLog \<lparr>emotionBuffer = [],
         emotionsLog = [\<lparr>time = ''08:00:05'', emotion = ''happy'', speech = ''''\<rparr>,
                        \<lparr>time = ''08:00:10'', emotion = ''sad'', speech = ''''\<rparr>],
         currentEmotion = ''sad''\<rparr>) \<and>
   speech (emotionsLog (step (Result ''hello'') \<lparr>emotionBuffer = [],
         emotionsLog = [\<lparr>time = ''08:00:05'', emotion = ''happy'', speech = ''''\<rparr>,
                        \<lparr>time = ''08:00:10'', emotion = ''sad'', speech = ''''\<rparr>],
         currentEmotion = ''sad''\<rparr>) ! 1) \<noteq> speech (emotionsLog \<lparr>emotionBuffer = [],
         emotionsLog = [\<lparr>time = ''08:00:05'', emotion = ''happy'', speech = ''''\<rparr>,
                        \<lparr>time = ''08:00:10'', emotion = ''sad'', speech = ''''\<rparr>],
         currentEmotion = ''sad''\<rparr> ! 1) \<and>
   length (emotionsLog \<lparr>emotionBuffer = [],
         emotionsLog = [\<lparr>time = ''08:00:05'', emotion = ''happy'', speech = ''''\<rparr>,
                        \<lparr>time = ''08:00:10'', emotion = ''sad'', speech = ''''\<rparr>],
         currentEmotion = ''sad''\<rparr>) \<le> length (emotionsLog (run [Result ''hello'', Tick (Some [[(''happy'', 9/10)]]) ''08:00:11'', Result ''world''] \<lparr>emotionBuffer = [],
         emotionsLog = [\<lparr>time = ''08:00:05'', emotion = ''happy'', speech = ''''\<rparr>,
                        \<lparr>time = ''08:00:10'', emotion = ''sad'', speech = ''''\<rparr>],
         currentEmotion = ''sad''\<rparr>)) \<and>
   time (emotionsLog (run [Result ''hello'', Tick (Some [[(''happy'', 9/10)]]) ''08:00:11'', Result ''world''] \<lparr>emotionBuffer = [],
         emotionsLog = [\<lparr>time = ''08:00:05'', emotion = ''happy'', speech = ''''\<rparr>,
                        \<lparr>time = ''08:00:10'', emotion = ''sad'', speech = ''''\<rparr>],
         currentEmotion = ''sad''\<rparr>) ! 1) = time (emotionsLog \<lparr>emotionBuffer = [],
         emotionsLog = [\<lparr>time = ''08:00:05'', emotion = ''happy'', speech = ''''\<rparr>,
                        \<lparr>time = ''08:00:10'', emotion = ''sad'', speech = ''''\<rparr>],
         currentEmotion = ''sad''\<rparr> ! 1) \<and>
   LogEntry.emotion (emotionsLog (run [Result ''hello'', Tick (Some [[(''happy'', 9/10)]]) ''08:00:11'', Result ''world''] \<lparr>emotionBuffer = [],
         emotionsLog = [\<lparr>time = ''08:00:05'', emotion = ''happy'', speech = ''''\<rparr>,
                        \<lparr>time = ''08:00:10'', emotion = ''sad'', speech = ''''\<rparr>],
         currentEmotion = ''sad''\<rparr>) ! 1) = LogEntry.emotion (emotionsLog \<lparr>emotionBuffer = [],
         emotionsLog = [\<lparr>time = ''08:00:05'', emotion = ''happy'', speech = ''''\<rparr>,
                        \<lparr>time = ''08:00:10'', emotion = ''sad'', speech = ''''\<rparr>],
         currentEmotion = ''sad''\<rparr> ! 1) \<and>
   emotionsLog (run [Result ''hello'', Tick (Some [[(''happy'', 9/10)]]) ''08:00:11'', Result ''world''] \<lparr>emotionBuffer = [],
         emotionsLog = [\<lparr>time = ''08:00:05'', emotion = ''happy'', speech = ''''\<rparr>,
                        \<lparr>time = ''08:00:10'', emotion = ''sad'', speech = ''''\<rparr>],
         currentEmotion = ''sad''\<rparr>) ! 0 = emotionsLog \<lparr>emotionBuffer = [],
         emotionsLog = [\<lparr>time = ''08:00:05'', emotion = ''happy'', speech = ''''\<rparr>,
                        \<lparr>time = ''08:00:10'', emotion = ''sad'', speech = ''''\<rparr>],
         currentEmotion = ''sad''\<rparr> ! 0 \<and>
   (\<exists>t. Result ''hello'' = Result t \<and> Suc 1 = length (emotionsLog \<lparr>emotionBuffer = [],
         emotionsLog = [\<lparr>time = ''08:00:05'', emotion = ''happy'', speech = ''''\<rparr>,
                        \<lparr>time = ''08:00:10'', emotion = ''sad'', speech = ''''\<rparr>],
         currentEmotion = ''sad''\<rparr>) \<and>
        speech (emotionsLog (step (Result ''hello'') \<lparr>emotionBuffer = [],
         emotionsLog = [\<lparr>time = ''08:00:05'', emotion = ''happy'', speech = ''''\<rparr>,
                        \<lparr>time = ''08:00:10'', emotion = ''sad'', speech = ''''\<rparr>],
         currentEmotion = ''sad''\<rparr>) ! 1) = t)"
proof -
  let ?s = "\<lparr>emotionBuffer = [],
         emotionsLog = [\<lparr>time = ''08:00:05'', emotion = ''happy'', speech = ''''\<rparr>,
                        \<lparr>time = ''08:00:10'', emotion = ''sad'', speech = ''''\<rparr>],
         currentEmotion = ''sad''\<rparr>"
  have l1: "1 < length (emotionsLog ?s)" by simp
  have l0: "Suc 0 < length (emotionsLog ?s)" by simp
  have ch: "speech (emotionsLog (step (Result ''hello'') ?s) ! 1) \<noteq> speech (emotionsLog ?s ! 1)"
    by (simp add: onresult_def amendLast_def)
  show ?thesis
    using log_entries_frame [of ?s "[Result ''hello'', Tick (Some [[(''happy'', 9/10)]]) ''08:00:11'', Result ''world'']" "Result ''hello''"] l1 l0 ch
    by blast
qed

text \<open>
  C6, as the specification states it, fails on "at most once". The first five ticks commit
  an entry; two transcripts then arrive before the next commit and each of them changes
  the speech of that entry: two mutations of the entry at position 0.
\<close>

theorem speech_mutated_once_counterexample:
  "speech_mutations 0
     [Tick (Some [[(''a'', 2/10)]]) ''08:00:01'',
      Tick (Some [[(''b'', 9/10)]]) ''08:00:02'',
      Tick (Some [[(''c'', 9/10)]]) ''08:00:03'',
      Tick (Some [[(''d'', 1/10)]]) ''08:00:04'',
      Tick (Some [[(''e'', 3/10)]]) ''08:00:05'',
      Result ''hello'',
      Result ''world''] initial = 2 \<and>
   \<not> speech_mutations 0
     [Tick (Some [[(''a'', 2/10)]]) ''08:00:01'',
      Tick (Some [[(''b'', 9/10)]]) ''08:00:02'',
      Tick (Some [[(''c'', 9/10)]]) ''08:00:03'',
      Tick (Some [[(''d'', 1/10)]]) ''08:00:04'',
      Tick (Some [[(''e'', 3/10)]]) ''08:00:05'',
      Result ''hello'',
      Result ''world''] initial \<le> 1"
  by (simp add: initial_def tick_def strongestEmotion_def afterPush_def reduce_def pick_def
        onresult_def amendLast_def)

subsection \<open>The export\<close>

lemma lines_of_line:
  "CHR 0x0A \<notin> set l \<Longrightarrow> lines_of (l @ CHR 0x0A # rest) = l # lines_of rest"
  by (induction l) auto

lemma lines_of_last:
  "CHR 0x0A \<notin> set l \<Longrightarrow> l \<noteq> [] \<Longrightarrow> lines_of l = [l]"
proof (induction l)
  case Nil
  then show ?case by simp
next
  case (Cons c cs)
  then show ?case by (cases "cs = []") auto
qed

lemma lines_of_join:
  "\<forall>r \<in> set rows. CHR 0x0A \<notin> set r \<and> r \<noteq> [] \<Longrightarrow>
   lines_of (join [CHR 0x0A] rows) = rows"
proof (induction "[CHR 0x0A]" rows rule: join.induct)
  case 1
  then show ?case by simp
next
  case (2 x)
  then show ?case by (simp add: lines_of_last)
next
  case (3 x y ys)
  then show ?case by (simp add: lines_of_line)
qed

lemma row_not_Nil: "row entry \<noteq> []"
  by (simp add: row_def)

lemma dataPortion_csvContent:
  "dataPortion (csvContent logs) =
     ''Time,Emotion,Speech'' @ [CHR 0x0A] @ join [CHR 0x0A] (map row logs)"
  by (simp add: csvContent_def dataPortion_def)

text \<open>
  \<open>join\<close> is the loop of \<^verbatim>\<open>Array.prototype.join\<close>: start from the first element and, for
  each further one, append the separator and the element.
\<close>

lemma foldl_join_step_prefix:
  "foldl (\<lambda>r e. r @ sep @ e) (a @ b) xs = a @ foldl (\<lambda>r e. r @ sep @ e) b xs"
  by (induction xs arbitrary: b) simp_all

lemma join_as_loop: "join sep (x # xs) = foldl (\<lambda>r e. r @ sep @ e) x xs"
proof (induction xs arbitrary: x)
  case Nil
  then show ?case by simp
next
  case (Cons y ys)
  have "join sep (x # y # ys) = x @ sep @ foldl (\<lambda>r e. r @ sep @ e) y ys"
    using Cons [of y] by simp
  also have "\<dots> = foldl (\<lambda>r e. r @ sep @ e) (x @ sep @ y) ys"
    using foldl_join_step_prefix [of sep "x @ sep" y ys] by simp
  finally show ?case by simp
qed

lemma set_join: "set (join sep rows) \<subseteq> set sep \<union> \<Union> (set ` set rows)"
  by (induction sep rows rule: join.induct) auto

text \<open>
  Decoding undoes \<^verbatim>\<open>encodeURI\<close> up to the first \<^verbatim>\<open>#\<close>: \<^verbatim>\<open>encodeURI\<close> writes a \<^verbatim>\<open>#\<close> exactly
  where the text has one, and the percent-decoding of an encoded text is its UTF-8 form.
\<close>

lemma hexDigit_table:
  "list_all (\<lambda>k. hexValue (hexDigit k) = Some k \<and> hexDigit k \<noteq> CHR ''#'') [0..<16]"
  by code_simp

lemma hexDigit_ok:
  assumes "k < 16"
  shows "hexValue (hexDigit k) = Some k" and "hexDigit k \<noteq> CHR ''#''"
  using hexDigit_table assms by (simp_all add: list_all_iff)

lemma percentDecode_plain:
  "c \<noteq> CHR ''%'' \<Longrightarrow> percentDecode (c # rest) = c # percentDecode rest"
proof (cases rest)
  case Nil
  then show ?thesis by simp
next
  case (Cons h t)
  then show "c \<noteq> CHR ''%'' \<Longrightarrow> ?thesis" by (cases t) simp_all
qed

lemma percentDecode_escape:
  assumes "octet < 256"
  shows "percentDecode (percentEscape octet @ rest) = char_of octet # percentDecode rest"
proof -
  have hi: "octet div 16 < 16" using assms by simp
  have lo: "octet mod 16 < 16" by simp
  have "16 * (octet div 16) + octet mod 16 = octet" by simp
  then show ?thesis
    by (simp add: percentEscape_def hexDigit_ok(1) [OF hi] hexDigit_ok(1) [OF lo])
qed

lemma hash_not_in_escape:
  assumes "octet < 256"
  shows "CHR ''#'' \<notin> set (percentEscape octet)"
proof -
  have hi: "octet div 16 < 16" using assms by simp
  have lo: "octet mod 16 < 16" by simp
  show ?thesis
    using hexDigit_ok(2) [OF hi] hexDigit_ok(2) [OF lo] by (auto simp: percentEscape_def)
qed

lemma utf8_octets: "octet \<in> set (utf8 c) \<Longrightarrow> octet < 256"
proof -
  have "(of_char c :: nat) < 256" by simp
  then have "(of_char c :: nat) div 64 < 4"
    by (intro less_mult_imp_div_less) simp
  then have "(192::nat) + of_char c div 64 < 256" by simp
  moreover have "(128::nat) + of_char c mod 64 < 256"
    by (simp add: less_le_trans [OF mod_less_divisor])
  ultimately show "octet \<in> set (utf8 c) \<Longrightarrow> octet < 256"
    by (auto simp: utf8_def split: if_splits)
qed

lemma unescaped_ascii:
  assumes "unescaped c"
  shows "(of_char c :: nat) < 128" and "c \<noteq> CHR ''%''"
  using assms by (auto simp: unescaped_def inRange_def)

lemma percentDecode_encodeChar:
  "percentDecode (encodeChar c @ rest) = map char_of (utf8 c) @ percentDecode rest"
proof (cases "unescaped c")
  case True
  then show ?thesis
    using unescaped_ascii [OF True]
    by (simp add: encodeChar_def utf8_def percentDecode_plain)
next
  case False
  show ?thesis
  proof (cases "(of_char c :: nat) < 128")
    case True
    then have "percentDecode (percentEscape (of_char c) @ rest) =
                 char_of (of_char c :: nat) # percentDecode rest"
      by (intro percentDecode_escape) simp
    then show ?thesis using False True by (simp add: encodeChar_def utf8_def)
  next
    case big: False
    let ?a = "192 + (of_char c :: nat) div 64"
    let ?b = "128 + (of_char c :: nat) mod 64"
    have a: "?a < 256" using utf8_octets [of ?a c] big by (simp add: utf8_def)
    have b: "?b < 256" using utf8_octets [of ?b c] big by (simp add: utf8_def)
    have "percentDecode (percentEscape ?a @ percentEscape ?b @ rest) =
            char_of ?a # char_of ?b # percentDecode rest"
      by (simp only: percentDecode_escape [OF a] percentDecode_escape [OF b])
    then show ?thesis using False big by (simp add: encodeChar_def utf8_def)
  qed
qed

lemma percentDecode_encodeURI: "percentDecode (encodeURI s) = utf8_string s"
proof (induction s)
  case Nil
  then show ?case by (simp add: encodeURI_def utf8_string_def)
next
  case (Cons c s)
  have "encodeURI (c # s) = encodeChar c @ encodeURI s" by (simp add: encodeURI_def)
  then show ?case
    using Cons percentDecode_encodeChar [of c "encodeURI s"]
    by (simp add: utf8_string_def)
qed

lemma hash_in_encodeChar:
  "CHR ''#'' \<in> set (encodeChar c) \<longleftrightarrow> c = CHR ''#''"
proof
  assume h: "CHR ''#'' \<in> set (encodeChar c)"
  show "c = CHR ''#''"
  proof (cases "unescaped c")
    case True
    then show ?thesis using h by (simp add: encodeChar_def)
  next
    case False
    then obtain octet where "octet \<in> set (utf8 c)" "CHR ''#'' \<in> set (percentEscape octet)"
      using h by (auto simp: encodeChar_def)
    then show ?thesis using hash_not_in_escape utf8_octets by blast
  qed
next
  assume "c = CHR ''#''"
  then show "CHR ''#'' \<in> set (encodeChar c)"
    by (simp add: encodeChar_def unescaped_def)
qed

lemma encodeChar_hash: "encodeChar CHR ''#'' = ''#''"
  by (simp add: encodeChar_def unescaped_def)

lemma takeWhile_encodeURI:
  "takeWhile (\<lambda>c. c \<noteq> CHR ''#'') (encodeURI s) =
   encodeURI (takeWhile (\<lambda>c. c \<noteq> CHR ''#'') s)"
proof (induction s)
  case Nil
  then show ?case by (simp add: encodeURI_def)
next
  case (Cons c s)
  have unf: "encodeURI (c # s) = encodeChar c @ encodeURI s" by (simp add: encodeURI_def)
  show ?case
  proof (cases "c = CHR ''#''")
    case True
    have "takeWhile (\<lambda>c. c \<noteq> CHR ''#'') (encodeChar CHR ''#'' @ encodeURI s) = []"
      by (simp add: encodeChar_hash)
    then show ?thesis using True by (simp add: encodeURI_def)
  next
    case False
    then have "\<forall>x \<in> set (encodeChar c). x \<noteq> CHR ''#''"
      using hash_in_encodeChar [of c] by auto
    then have "takeWhile (\<lambda>c. c \<noteq> CHR ''#'') (encodeChar c @ encodeURI s) =
               encodeChar c @ takeWhile (\<lambda>c. c \<noteq> CHR ''#'') (encodeURI s)"
      by (simp add: takeWhile_append2)
    then show ?thesis using False Cons by (simp add: encodeURI_def)
  qed
qed

lemma encodeURI_append: "encodeURI (a @ b) = encodeURI a @ encodeURI b"
  by (simp add: encodeURI_def)

lemma encodeURI_prefix:
  "encodeURI ''data:text/csv;charset=utf-8,'' = ''data:text/csv;charset=utf-8,''"
  by code_simp

lemma savedFile_prefix:
  "savedFile (''data:text/csv;charset=utf-8,'' @ body) =
   percentDecode (takeWhile (\<lambda>c. c \<noteq> CHR ''#'') body)"
  by (simp add: savedFile_def)

lemma csvContent_split:
  "csvContent logs = ''data:text/csv;charset=utf-8,'' @ dataPortion (csvContent logs)"
  by (simp add: csvContent_def dataPortion_def)

lemma savedFile_encodedUri:
  "savedFile (encodedUri logs) =
   utf8_string (takeWhile (\<lambda>c. c \<noteq> CHR ''#'') (dataPortion (csvContent logs)))"
proof -
  have "encodedUri logs =
          ''data:text/csv;charset=utf-8,'' @ encodeURI (dataPortion (csvContent logs))"
    using csvContent_split [of logs] encodeURI_append encodeURI_prefix
    by (metis encodedUri_def)
  then have "savedFile (encodedUri logs) =
      percentDecode (takeWhile (\<lambda>c. c \<noteq> CHR ''#'') (encodeURI (dataPortion (csvContent logs))))"
    by (simp only: savedFile_prefix)
  then show ?thesis
    by (simp only: takeWhile_encodeURI percentDecode_encodeURI)
qed

lemma utf8_string_ascii:
  "\<forall>c \<in> set s. (of_char c :: nat) < 128 \<Longrightarrow> utf8_string s = s"
  by (induction s) (simp_all add: utf8_string_def utf8_def)

text \<open>
  What the export saves, for every log: the UTF-8 form of the CSV text, cut at the first
  \<^verbatim>\<open>#\<close> of that text.
\<close>

lemma savedFile_is_cut_text:
  "savedFile (encodedUri logs) =
   utf8_string (takeWhile (\<lambda>c. c \<noteq> CHR ''#'')
     (''Time,Emotion,Speech'' @ [CHR 0x0A] @ join [CHR 0x0A] (map row logs)))"
  using savedFile_encodedUri [of logs] by (simp only: dataPortion_csvContent)

lemma set_row:
  "set (row entry) =
     set (time entry) \<union> set (LogEntry.emotion entry) \<union> set (speech entry) \<union> {CHR '',''}"
  by (auto simp: row_def)

lemma plain_comma: "plain CHR '',''"
  by (simp add: plain_def)

lemma plain_header: "\<forall>c \<in> set ''Time,Emotion,Speech''. plain c"
proof -
  have "list_all plain ''Time,Emotion,Speech''" by code_simp
  then show ?thesis by (simp only: list_all_iff)
qed

text \<open>
  So when every character of the fields is plain, the saved file is the header row followed
  by one line for each entry, in the log's order.
\<close>

lemma savedFile_lines_plain:
  assumes "\<forall>entry \<in> set logs.
             \<forall>c \<in> set (time entry) \<union> set (LogEntry.emotion entry) \<union> set (speech entry). plain c"
  shows "savedFile (encodedUri logs) =
           ''Time,Emotion,Speech'' @ [CHR 0x0A] @ join [CHR 0x0A] (map row logs)"
    and "lines_of (savedFile (encodedUri logs)) = ''Time,Emotion,Speech'' # map row logs"
proof -
  define header where "header = ''Time,Emotion,Speech''"
  define body where "body = join [CHR 0x0A] (map row logs)"
  have rows: "\<And>r c. r \<in> set (map row logs) \<Longrightarrow> c \<in> set r \<Longrightarrow> plain c"
  proof -
    fix r c assume "r \<in> set (map row logs)" and c: "c \<in> set r"
    then obtain entry where e: "entry \<in> set logs" "r = row entry" by auto
    then have "c \<in> set (time entry) \<union> set (LogEntry.emotion entry) \<union> set (speech entry)
               \<or> c = CHR '',''"
      using c by (auto simp: set_row)
    then show "plain c" using assms e(1) plain_comma by blast
  qed
  have hdr: "\<And>c. c \<in> set header \<Longrightarrow> plain c"
    using plain_header unfolding header_def by blast
  have joined: "\<And>c. c \<in> set body \<Longrightarrow> (of_char c :: nat) < 128 \<and> c \<noteq> CHR ''#''"
  proof -
    fix c assume "c \<in> set body"
    then have "c \<in> set [CHR 0x0A] \<union> \<Union> (set ` set (map row logs))"
      using set_join [of "[CHR 0x0A]" "map row logs"] unfolding body_def by blast
    then consider "c = CHR 0x0A" | r where "r \<in> set (map row logs)" "c \<in> set r"
      by auto
    then show "(of_char c :: nat) < 128 \<and> c \<noteq> CHR ''#''"
    proof cases
      case 1
      then show ?thesis by simp
    next
      case 2
      then show ?thesis using rows [of r c] by (simp add: plain_def)
    qed
  qed
  have all: "\<forall>c \<in> set (header @ [CHR 0x0A] @ body). (of_char c :: nat) < 128 \<and> c \<noteq> CHR ''#''"
  proof
    fix c assume "c \<in> set (header @ [CHR 0x0A] @ body)"
    then consider "c \<in> set header" | "c = CHR 0x0A" | "c \<in> set body" by auto
    then show "(of_char c :: nat) < 128 \<and> c \<noteq> CHR ''#''"
    proof cases
      case 1 then show ?thesis using hdr [of c] by (simp add: plain_def)
    next
      case 2 then show ?thesis by simp
    next
      case 3 then show ?thesis by (rule joined)
    qed
  qed
  have nohash: "takeWhile (\<lambda>c. c \<noteq> CHR ''#'') (header @ [CHR 0x0A] @ body) =
                  header @ [CHR 0x0A] @ body"
    using all by (intro takeWhile_eq_all_conv [THEN iffD2]) blast
  have ascii: "utf8_string (header @ [CHR 0x0A] @ body) = header @ [CHR 0x0A] @ body"
    using all by (intro utf8_string_ascii) blast
  have cut: "savedFile (encodedUri logs) =
      utf8_string (takeWhile (\<lambda>c. c \<noteq> CHR ''#'') (header @ [CHR 0x0A] @ body))"
    unfolding header_def body_def by (rule savedFile_is_cut_text)
  have saved: "savedFile (encodedUri logs) = header @ [CHR 0x0A] @ body"
    using cut nohash ascii by (simp only:)
  then show "savedFile (encodedUri logs) =
           ''Time,Emotion,Speech'' @ [CHR 0x0A] @ join [CHR 0x0A] (map row logs)"
    unfolding header_def body_def .
  have nl: "\<forall>r \<in> set (map row logs). CHR 0x0A \<notin> set r \<and> r \<noteq> []"
  proof
    fix r assume r: "r \<in> set (map row logs)"
    have "CHR 0x0A \<notin> set r"
    proof
      assume "CHR 0x0A \<in> set r"
      then have "plain (CHR 0x0A)" using rows [OF r] by blast
      then show False by (simp add: plain_def)
    qed
    moreover have "r \<noteq> []" using r row_not_Nil by auto
    ultimately show "CHR 0x0A \<notin> set r \<and> r \<noteq> []" by blast
  qed
  have hnl: "CHR 0x0A \<notin> set header"
  proof
    assume "CHR 0x0A \<in> set header"
    then have "plain (CHR 0x0A)" using hdr by blast
    then show False by (simp add: plain_def)
  qed
  have "lines_of (header @ CHR 0x0A # body) = header # lines_of body"
    using hnl by (rule lines_of_line)
  then have "lines_of (header @ [CHR 0x0A] @ body) = header # map row logs"
    using lines_of_join [OF nl] by (simp add: body_def)
  then show "lines_of (savedFile (encodedUri logs)) = ''Time,Emotion,Speech'' # map row logs"
    using saved unfolding header_def by (simp only:)
qed

text \<open>
  The log of the specification's example, the entries (08:00:01, happy, no speech) and
  (08:00:02, sad, "hi there"), is such a log, and the saved file is the text given there.
\<close>

lemma savedFile_two_entries:
  "encodedUri
     [\<lparr>time = ''08:00:01'', emotion = ''happy'', speech = ''''\<rparr>,
      \<lparr>time = ''08:00:02'', emotion = ''sad'', speech = ''hi there''\<rparr>] =
     ''data:text/csv;charset=utf-8,Time,Emotion,Speech%0A08:00:01,happy,%0A08:00:02,sad,hi%20there'' \<and>
   savedFile (encodedUri
     [\<lparr>time = ''08:00:01'', emotion = ''happy'', speech = ''''\<rparr>,
      \<lparr>time = ''08:00:02'', emotion = ''sad'', speech = ''hi there''\<rparr>]) =
     ''Time,Emotion,Speech'' @ [CHR 0x0A] @ ''08:00:01,happy,'' @ [CHR 0x0A] @
     ''08:00:02,sad,hi there''"
  by code_simp

text \<open>
  C3 fails on the code. \<^verbatim>\<open>encodeURI\<close> does not escape \<^verbatim>\<open>#\<close>, and in the \<^verbatim>\<open>href\<close> a \<^verbatim>\<open>#\<close>
  starts the fragment. For the log of the entries (08:00:05, happy, "we are #1 today") and
  (08:00:10, sad, no speech) the string \<^verbatim>\<open>csvContent\<close> holds the header and both rows,
  and so does the encoded URI, but the file that is saved ends at \<^verbatim>\<open>we are \<close>: the
  rest of the first row and the whole second row are missing from it.
\<close>

theorem export_cut_at_hash:
  "dataPortion (csvContent
     [\<lparr>time = ''08:00:05'', emotion = ''happy'', speech = ''we are #1 today''\<rparr>,
      \<lparr>time = ''08:00:10'', emotion = ''sad'', speech = ''''\<rparr>]) =
     ''Time,Emotion,Speech'' @ [CHR 0x0A] @ ''08:00:05,happy,we are #1 today'' @ [CHR 0x0A] @
     ''08:00:10,sad,'' \<and>
   encodedUri
     [\<lparr>time = ''08:00:05'', emotion = ''happy'', speech = ''we are #1 today''\<rparr>,
      \<lparr>time = ''08:00:10'', emotion = ''sad'', speech = ''''\<rparr>] =
     ''data:text/csv;charset=utf-8,Time,Emotion,Speech%0A08:00:05,happy,we%20are%20#1%20today%0A08:00:10,sad,'' \<and>
   savedFile (encodedUri
     [\<lparr>time = ''08:00:05'', emotion = ''happy'', speech = ''we are #1 today''\<rparr>,
      \<lparr>time = ''08:00:10'', emotion = ''sad'', speech = ''''\<rparr>]) =
     ''Time,Emotion,Speech'' @ [CHR 0x0A] @ ''08:00:05,happy,we are '' \<and>
   lines_of (savedFile (encodedUri
     [\<lparr>time = ''08:00:05'', emotion = ''happy'', speech = ''we are #1 today''\<rparr>,
      \<lparr>time = ''08:00:10'', emotion = ''sad'', speech = ''''\<rparr>])) =
     [''Time,Emotion,Speech'', ''08:00:05,happy,we are '']"
  by code_simp

text \<open>
  C10. On an empty log \<^verbatim>\<open>downloadLogs\<close> has no failing path, and the data portion of the
  document it builds is the header row \<^verbatim>\<open>Time,Emotion,Speech\<close> with its newline and no
  entry row. The file that is saved from the encoded URI is that same text.
\<close>

theorem csvContent_empty_log:
  "csvContent [] = ''data:text/csv;charset=utf-8,'' @ ''Time,Emotion,Speech'' @ [CHR 0x0A] \<and>
   dataPortion (csvContent []) = ''Time,Emotion,Speech'' @ [CHR 0x0A] \<and>
   lines_of (dataPortion (csvContent [])) = [''Time,Emotion,Speech''] \<and>
   savedFile (encodedUri []) = ''Time,Emotion,Speech'' @ [CHR 0x0A] \<and>
   lines_of (savedFile (encodedUri [])) = [''Time,Emotion,Speech'']"
proof -
  have built: "csvContent [] = ''data:text/csv;charset=utf-8,'' @ ''Time,Emotion,Speech'' @ [CHR 0x0A] \<and>
     dataPortion (csvContent []) = ''Time,Emotion,Speech'' @ [CHR 0x0A] \<and>
     lines_of (dataPortion (csvContent [])) = [''Time,Emotion,Speech'']"
    by (simp add: csvContent_def dataPortion_def)
  have saved: "savedFile (encodedUri []) = ''Time,Emotion,Speech'' @ [CHR 0x0A]"
    by code_simp
  have "lines_of (savedFile (encodedUri [])) = [''Time,Emotion,Speech'']"
    by (simp only: saved) simp
  then show ?thesis using built saved by blast
qed

end
